theory Spec2Isabelle
  imports Main "HOL-Library.Sublist"
begin

section \<open>The NETCONF filter compiler of netopeer2 (src/common.c)\<close>

text \<open>
  A shallow embedding of \<^verbatim>\<open>op_filter_create\<close> and the functions below it:
  the translation of a NETCONF \<^verbatim>\<open><filter></filter>\<close> element (an XPath select string
  or a subtree pattern) into a list of XPath strings.

  Conventions of the embedding.
  \<^item> A C string is a \<open>string\<close>; a pointer that may be \<^verbatim>\<open>NULL\<close> is an \<open>option\<close>.
  \<^item> A sibling list (\<^verbatim>\<open>LY_TREE_FOR\<close> over \<^verbatim>\<open>next\<close> pointers) is a list; the
    \<^verbatim>\<open>NULL\<close> list is \<open>[]\<close>.
  \<^item> A path buffer \<^verbatim>\<open>char *buf\<close> with its \<^verbatim>\<open>int size\<close> is the string it holds. Every
    function of the source keeps \<^verbatim>\<open>size = strlen(buf) + 1\<close> (each \<^verbatim>\<open>new_size\<close> adds
    exactly the number of characters the following \<^verbatim>\<open>sprintf\<close> writes at offset
    \<^verbatim>\<open>size - 1\<close>), the empty buffer being \<^verbatim>\<open>buf = NULL, size = 1\<close>. The three kinds
    of returned size (positive, \<^verbatim>\<open>0\<close>, \<^verbatim>\<open>-1\<close>) are the constructors of \<open>buf_size\<close>.
  \<^item> Namespace strings of one libyang context live in its dictionary, where equal strings
    share one address: the pointer test \<^verbatim>\<open>elem->ns->value != last_ns\<close> is string
    inequality.
  \<^item> Every \<^verbatim>\<open>malloc\<close> and \<^verbatim>\<open>realloc\<close> whose result the source tests asks the
    \<open>heap\<close>, a list of outcomes consumed from the front; the empty list is a heap that
    never fails. The \<^verbatim>\<open>strdup\<close> and the libyang calls of
    \<^verbatim>\<open>filter_xpath_buf_get_content\<close> are not tested by the source and do not ask it.
  \<^item> \<^verbatim>\<open>filters\<close> with \<^verbatim>\<open>filter_count\<close> is the list of the strings that are still
    allocated: the error path of \<^verbatim>\<open>op_filter_build_xpath_from_subtree\<close> frees them all and
    leaves \<open>[]\<close>.
\<close>

subsection \<open>libyang data the compiler reads\<close>

datatype LYXML_ATTR_TYPE = LYXML_ATTR_STD | LYXML_ATTR_NS

record lyxml_attr =
  attr_type :: LYXML_ATTR_TYPE
  attr_name :: string
  attr_value :: string
  attr_ns :: "string option"

datatype lyxml_elem =
  Elem (elem_name: string) (elem_ns: "string option") (elem_attr: "lyxml_attr list")
       (elem_content: "string option") (elem_child: "lyxml_elem list")

record lys_module =
  mod_name :: string
  mod_ns :: string
  mod_top_nodes :: "string list"

text \<open>
  The libyang context, seen through the calls the compiler makes:
  \<^verbatim>\<open>ly_ctx_get_module_by_ns(ctx, ns, NULL, 1)\<close>, the sequence of
  \<^verbatim>\<open>ly_ctx_get_module_iter\<close> (each module with the node names that
  \<^verbatim>\<open>lys_getnext(node, NULL, module, 0)\<close> enumerates), \<^verbatim>\<open>ly_path_xml2json\<close>
  (\<open>None\<close> for \<^verbatim>\<open>NULL\<close>) and \<^verbatim>\<open>lyxml_parse_mem(ctx, str, LYXML_PARSE_MULTIROOT)\<close>,
  which returns the first of the parsed top-level elements, or \<^verbatim>\<open>NULL\<close> when there
  is none.
\<close>

record ly_ctx =
  ly_ctx_get_module_by_ns :: "string \<Rightarrow> lys_module option"
  ly_ctx_get_module_iter :: "lys_module list"
  ly_path_xml2json :: "string \<Rightarrow> lyxml_elem \<Rightarrow> string option"
  lyxml_parse_mem :: "string \<Rightarrow> lyxml_elem list"

text \<open>
  An attribute of the data tree. libyang keeps \<^verbatim>\<open>value_str\<close> in its dictionary and never
  leaves it \<^verbatim>\<open>NULL\<close> (the source passes it to \<^verbatim>\<open>strcmp\<close> unchecked), so the test
  \<^verbatim>\<open>!attr->value_str || !attr->value_str[0]\<close> is the test for the empty string.
\<close>

record lyd_attr =
  name :: string
  value_str :: string

text \<open>
  \<^verbatim>\<open>value_type\<close> and the union \<^verbatim>\<open>value\<close> of \<^verbatim>\<open>struct lyd_node_anydata\<close> as one tagged
  union. The types above \<^verbatim>\<open>LYD_ANYDATA_STRING\<close> other than \<^verbatim>\<open>LYD_ANYDATA_XML\<close> are
  \<open>LYD_ANYDATA_OTHER\<close>, which records only whether the pointer is \<^verbatim>\<open>NULL\<close>.
\<close>

datatype lyd_anydata_value =
    LYD_ANYDATA_CONSTSTRING "string option"
  | LYD_ANYDATA_STRING "string option"
  | LYD_ANYDATA_XML "lyxml_elem list"
  | LYD_ANYDATA_OTHER bool

record lyd_node_anydata =
  attr :: "lyd_attr list"
  val :: lyd_anydata_value

subsection \<open>Allocation\<close>

type_synonym heap = "bool list"

fun alloc :: "heap \<Rightarrow> bool \<times> heap" where
  "alloc [] = (True, [])"
| "alloc (ok # h) = (ok, h)"

subsection \<open>Characters and constants\<close>

definition squote :: char where
  "squote = CHR 0x27"

definition dquote :: char where
  "dquote = CHR 0x22"

definition nc_base_ns :: string where
  "nc_base_ns = ''urn:ietf:params:xml:ns:netconf:base:1.0''"

text \<open>\<^verbatim>\<open>isspace\<close> of the C locale: space, \<^verbatim>\<open>\t \n \v \f \r\<close>.\<close>

definition isspace :: "char \<Rightarrow> bool" where
  "isspace c = (c = CHR 0x20 \<or> c = CHR 0x09 \<or> c = CHR 0x0A \<or> c = CHR 0x0B
                \<or> c = CHR 0x0C \<or> c = CHR 0x0D)"

fun strws :: "string \<Rightarrow> bool" where
  "strws [] = True"
| "strws (c # str) = (if \<not> isspace c then False else strws str)"

subsection \<open>The filter list\<close>

definition op_filter_xpath_add_filter ::
  "string \<Rightarrow> string list \<Rightarrow> heap \<Rightarrow> int \<times> string list \<times> heap" where
  "op_filter_xpath_add_filter new_filter filters h =
     (case alloc h of
        (False, h') \<Rightarrow> (- 1, filters, h')
      | (True, h') \<Rightarrow> (0, filters @ [new_filter], h'))"

subsection \<open>Path buffers\<close>

datatype buf_size = Size string | Zero | Negative

fun filter_xpath_buf_add_attrs ::
  "ly_ctx \<Rightarrow> lyxml_attr list \<Rightarrow> string \<Rightarrow> heap \<Rightarrow> buf_size \<times> heap" where
  "filter_xpath_buf_add_attrs ctx [] buf h = (Size buf, h)"
| "filter_xpath_buf_add_attrs ctx (next # attrs) buf h =
     (if attr_type next = LYXML_ATTR_STD then
        (case (case attr_ns next of
                 None \<Rightarrow> None
               | Some ns \<Rightarrow> ly_ctx_get_module_by_ns ctx ns) of
           None \<Rightarrow> filter_xpath_buf_add_attrs ctx attrs buf h
         | Some module \<Rightarrow>
             (case alloc h of
                (False, h') \<Rightarrow> (Negative, h')
              | (True, h') \<Rightarrow>
                  filter_xpath_buf_add_attrs ctx attrs
                    (buf @ ''[@'' @ mod_name module @ '':'' @ attr_name next @ ''=''
                       @ [squote] @ attr_value next @ [squote] @ '']'') h'))
      else filter_xpath_buf_add_attrs ctx attrs buf h)"

text \<open>
  The two loops skip leading and trailing white space. The callers pass only content
  with a character that is not white space, so the second loop stops inside the string.
\<close>

definition filter_xpath_buf_get_content :: "ly_ctx \<Rightarrow> lyxml_elem \<Rightarrow> string" where
  "filter_xpath_buf_get_content ctx elem =
     (let start = rev (dropWhile isspace (rev (dropWhile isspace
                    (case elem_content elem of None \<Rightarrow> [] | Some c \<Rightarrow> c))))
      in case ly_path_xml2json ctx start elem of
           None \<Rightarrow> start
         | Some ret \<Rightarrow> ret)"

definition filter_xpath_buf_add_top_content ::
  "ly_ctx \<Rightarrow> lyxml_elem \<Rightarrow> string \<Rightarrow> string list \<Rightarrow> heap \<Rightarrow> int \<times> string list \<times> heap" where
  "filter_xpath_buf_add_top_content ctx elem elem_module_name filters h =
     (let content = filter_xpath_buf_get_content ctx elem in
      case alloc h of
        (False, h1) \<Rightarrow> (- 1, filters, h1)
      | (True, h1) \<Rightarrow>
          (case filter_xpath_buf_add_attrs ctx (elem_attr elem)
                  (''/'' @ elem_module_name @ '':'' @ elem_name elem @ ''[text()=''
                     @ [squote] @ content @ [squote] @ '']'') h1 of
             (Zero, h2) \<Rightarrow> (0, filters, h2)
           | (Negative, h2) \<Rightarrow> (- 1, filters, h2)
           | (Size buf, h2) \<Rightarrow>
               (case op_filter_xpath_add_filter buf filters h2 of
                  (rc, filters', h3) \<Rightarrow>
                    if rc \<noteq> 0 then (- 1, filters, h3) else (0, filters', h3))))"

text \<open>
  The test that opens both \<^verbatim>\<open>filter_xpath_buf_add_content\<close> and
  \<^verbatim>\<open>filter_xpath_buf_add_node\<close>: \<open>None\<close> is their \<^verbatim>\<open>return 0\<close>, \<open>Some m\<close> the value of
  \<^verbatim>\<open>elem_module_name\<close> after it.
\<close>

definition elem_module ::
  "ly_ctx \<Rightarrow> lyxml_elem \<Rightarrow> string option \<Rightarrow> string \<Rightarrow> string option option" where
  "elem_module ctx elem elem_module_name last_ns =
     (case elem_ns elem of
        None \<Rightarrow> Some elem_module_name
      | Some ns \<Rightarrow>
          if elem_module_name = None \<and> ns \<noteq> last_ns \<and> ns \<noteq> nc_base_ns then
            (case ly_ctx_get_module_by_ns ctx ns of
               None \<Rightarrow> None
             | Some module \<Rightarrow> Some (Some (mod_name module)))
          else Some elem_module_name)"

text \<open>The \<^verbatim>\<open>"%s%s%s"\<close> of both: module name and colon when there is one, then the name.\<close>

definition qname :: "string option \<Rightarrow> string \<Rightarrow> string" where
  "qname elem_module_name nm =
     (case elem_module_name of None \<Rightarrow> [] | Some m \<Rightarrow> m @ '':'') @ nm"

definition filter_xpath_buf_add_content ::
  "ly_ctx \<Rightarrow> lyxml_elem \<Rightarrow> string option \<Rightarrow> string \<Rightarrow> string \<Rightarrow> heap \<Rightarrow> buf_size \<times> heap" where
  "filter_xpath_buf_add_content ctx elem elem_module_name last_ns buf h =
     (case elem_module ctx elem elem_module_name last_ns of
        None \<Rightarrow> (Zero, h)
      | Some module_name \<Rightarrow>
          (case alloc h of
             (False, h1) \<Rightarrow> (Negative, h1)
           | (True, h1) \<Rightarrow>
               (case filter_xpath_buf_add_attrs ctx (elem_attr elem)
                       (buf @ ''['' @ qname module_name (elem_name elem)) h1 of
                  (Zero, h2) \<Rightarrow> (Zero, h2)
                | (Negative, h2) \<Rightarrow> (Negative, h2)
                | (Size buf1, h2) \<Rightarrow>
                    (let content = filter_xpath_buf_get_content ctx elem in
                     case alloc h2 of
                       (False, h3) \<Rightarrow> (Negative, h3)
                     | (True, h3) \<Rightarrow>
                         (let quot = (if squote \<in> set content then dquote else squote)
                          in (Size (buf1 @ ''='' @ [quot] @ content @ [quot] @ '']''), h3))))))"

definition filter_xpath_buf_add_node ::
  "ly_ctx \<Rightarrow> lyxml_elem \<Rightarrow> string option \<Rightarrow> string \<Rightarrow> string \<Rightarrow> heap \<Rightarrow> buf_size \<times> heap" where
  "filter_xpath_buf_add_node ctx elem elem_module_name last_ns buf h =
     (case elem_module ctx elem elem_module_name last_ns of
        None \<Rightarrow> (Zero, h)
      | Some module_name \<Rightarrow>
          (case alloc h of
             (False, h1) \<Rightarrow> (Negative, h1)
           | (True, h1) \<Rightarrow>
               filter_xpath_buf_add_attrs ctx (elem_attr elem)
                 (buf @ ''/'' @ qname module_name (elem_name elem)) h1))"

subsection \<open>The subtree walker\<close>

text \<open>\<^verbatim>\<open>!child->child && child->content && !strws(child->content)\<close>\<close>

definition content_match_node :: "lyxml_elem \<Rightarrow> bool" where
  "content_match_node child =
     (elem_child child = [] \<and>
      (case elem_content child of None \<Rightarrow> False | Some c \<Rightarrow> \<not> strws c))"

text \<open>
  The first loop of \<^verbatim>\<open>filter_xpath_buf_add\<close>, over \<^verbatim>\<open>elem->child\<close>; the flag is
  \<^verbatim>\<open>only_content_match_node\<close>.
\<close>

fun content_match_loop ::
  "ly_ctx \<Rightarrow> lyxml_elem list \<Rightarrow> string option \<Rightarrow> string \<Rightarrow> string \<Rightarrow> bool \<Rightarrow> heap
   \<Rightarrow> buf_size \<times> bool \<times> heap" where
  "content_match_loop ctx [] elem_module_name last_ns buf only h = (Size buf, only, h)"
| "content_match_loop ctx (child # children) elem_module_name last_ns buf only h =
     (if content_match_node child then
        (case filter_xpath_buf_add_content ctx child elem_module_name last_ns buf h of
           (Zero, h') \<Rightarrow> (Zero, only, h')
         | (Negative, h') \<Rightarrow> (Negative, only, h')
         | (Size buf', h') \<Rightarrow>
             content_match_loop ctx children elem_module_name last_ns buf' only h')
      else content_match_loop ctx children elem_module_name last_ns buf False h)"

text \<open>
  \<^verbatim>\<open>filter_xpath_buf_add\<close> and its second loop, \<open>branch_loop\<close>. The last child takes the
  buffer itself, every other child a \<^verbatim>\<open>malloc\<close>ed copy. The value the recursive call
  returns is dropped by the source (line 754), so the loop goes on whatever it is.
\<close>

fun filter_xpath_buf_add ::
  "ly_ctx \<Rightarrow> lyxml_elem \<Rightarrow> string option \<Rightarrow> string \<Rightarrow> string \<Rightarrow> string list \<Rightarrow> heap
   \<Rightarrow> int \<times> string list \<times> heap"
and branch_loop ::
  "ly_ctx \<Rightarrow> lyxml_elem list \<Rightarrow> string \<Rightarrow> string \<Rightarrow> string list \<Rightarrow> heap
   \<Rightarrow> int \<times> string list \<times> heap" where
  "filter_xpath_buf_add ctx (Elem nm ns attrs content children) elem_module_name last_ns
     buf filters h =
     (case filter_xpath_buf_add_node ctx (Elem nm ns attrs content children)
             elem_module_name last_ns buf h of
        (Zero, h1) \<Rightarrow> (0, filters, h1)
      | (Negative, h1) \<Rightarrow> (- 1, filters, h1)
      | (Size buf1, h1) \<Rightarrow>
          (case content_match_loop ctx children elem_module_name last_ns buf1 True h1 of
             (Zero, only, h2) \<Rightarrow> (0, filters, h2)
           | (Negative, only, h2) \<Rightarrow> (- 1, filters, h2)
           | (Size buf2, only, h2) \<Rightarrow>
               if only then
                 (case op_filter_xpath_add_filter buf2 filters h2 of
                    (rc, filters', h3) \<Rightarrow>
                      if rc \<noteq> 0 then (- 1, filters, h3) else (0, filters', h3))
               else branch_loop ctx children last_ns buf2 filters h2))"
| "branch_loop ctx [] last_ns buf filters h = (0, filters, h)"
| "branch_loop ctx (child # children) last_ns buf filters h =
     (case (if children = [] then (True, h) else alloc h) of
        (False, h1) \<Rightarrow> (- 1, filters, h1)
      | (True, h1) \<Rightarrow>
          if elem_child child \<noteq> [] then
            (case filter_xpath_buf_add ctx child None last_ns buf filters h1 of
               (rc, filters', h2) \<Rightarrow> branch_loop ctx children last_ns buf filters' h2)
          else
            (case filter_xpath_buf_add_node ctx child None last_ns buf h1 of
               (Zero, h2) \<Rightarrow> branch_loop ctx children last_ns buf filters h2
             | (Negative, h2) \<Rightarrow> (- 1, filters, h2)
             | (Size buf', h2) \<Rightarrow>
                 (case op_filter_xpath_add_filter buf' filters h2 of
                    (rc, filters', h3) \<Rightarrow>
                      if rc \<noteq> 0 then (- 1, filters, h3)
                      else branch_loop ctx children last_ns buf filters' h3)))"

subsection \<open>The top-level resolver\<close>

text \<open>
  The \<^verbatim>\<open>while\<close> over \<^verbatim>\<open>ly_ctx_get_module_iter\<close>: a module is appended (one
  \<^verbatim>\<open>realloc\<close>) when one of its nodes has the element's name. \<open>None\<close> is \<^verbatim>\<open>goto error\<close>.
\<close>

fun module_iter_loop ::
  "string \<Rightarrow> lys_module list \<Rightarrow> lys_module list \<Rightarrow> heap \<Rightarrow> lys_module list option \<times> heap" where
  "module_iter_loop nm [] modules h = (Some modules, h)"
| "module_iter_loop nm (module # rest) modules h =
     (if nm \<in> set (mod_top_nodes module) then
        (case alloc h of
           (False, h') \<Rightarrow> (None, h')
         | (True, h') \<Rightarrow> module_iter_loop nm rest (modules @ [module]) h')
      else module_iter_loop nm rest modules h)"

text \<open>The \<^verbatim>\<open>for\<close> over the modules found; a result other than \<open>0\<close> is \<^verbatim>\<open>goto error\<close>.\<close>

fun modules_loop ::
  "ly_ctx \<Rightarrow> lyxml_elem \<Rightarrow> lys_module list \<Rightarrow> string list \<Rightarrow> heap
   \<Rightarrow> int \<times> string list \<times> heap" where
  "modules_loop ctx next [] filters h = (0, filters, h)"
| "modules_loop ctx next (module # modules) filters h =
     (case (if content_match_node next
            then filter_xpath_buf_add_top_content ctx next (mod_name module) filters h
            else filter_xpath_buf_add ctx next (Some (mod_name module)) (mod_ns module)
                   [] filters h) of
        (rc, filters', h') \<Rightarrow>
          if rc \<noteq> 0 then (- 1, filters', h')
          else modules_loop ctx next modules filters' h')"

fun op_filter_build_xpath_from_subtree ::
  "ly_ctx \<Rightarrow> lyxml_elem list \<Rightarrow> string list \<Rightarrow> heap \<Rightarrow> int \<times> string list \<times> heap" where
  "op_filter_build_xpath_from_subtree ctx [] filters h = (0, filters, h)"
| "op_filter_build_xpath_from_subtree ctx (next # elems) filters h =
     (case (case elem_ns next of
              None \<Rightarrow>
                (case module_iter_loop (elem_name next) (ly_ctx_get_module_iter ctx) [] h of
                   (None, h') \<Rightarrow> (None, h')
                 | (Some modules, h') \<Rightarrow> (Some (Some modules), h'))
            | Some ns \<Rightarrow>
                if ns \<noteq> nc_base_ns then
                  (case alloc h of
                     (False, h') \<Rightarrow> (None, h')
                   | (True, h') \<Rightarrow>
                       (case ly_ctx_get_module_by_ns ctx ns of
                          None \<Rightarrow> (Some None, h')
                        | Some module \<Rightarrow> (Some (Some [module]), h')))
                else
                  (case module_iter_loop (elem_name next) (ly_ctx_get_module_iter ctx) [] h of
                     (None, h') \<Rightarrow> (None, h')
                   | (Some modules, h') \<Rightarrow> (Some (Some modules), h'))) of
        (None, h') \<Rightarrow> (- 1, [], h')
      | (Some None, h') \<Rightarrow> op_filter_build_xpath_from_subtree ctx elems filters h'
      | (Some (Some modules), h') \<Rightarrow>
          (case modules_loop ctx next modules filters h' of
             (rc, filters', h'') \<Rightarrow>
               if rc \<noteq> 0 then (- 1, [], h'')
               else op_filter_build_xpath_from_subtree ctx elems filters' h''))"

subsection \<open>The dispatcher\<close>

text \<open>
  The attribute loop of \<^verbatim>\<open>op_filter_create\<close>. Its result is the variable \<^verbatim>\<open>attr\<close> after
  the loop (\<open>Inr\<close>), or the \<^verbatim>\<open>return -1\<close> inside it (\<open>Inl\<close>). The inner loop, which
  searches \<^verbatim>\<open>select\<close> from the first attribute, is \<open>find\<close>.
\<close>

fun type_loop :: "lyd_attr list \<Rightarrow> lyd_attr list \<Rightarrow> int + lyd_attr option" where
  "type_loop all_attrs [] = Inr None"
| "type_loop all_attrs (a # attrs) =
     (if name a = ''type'' then
        (if value_str a = ''xpath'' then
           (case find (\<lambda>s. name s = ''select'') all_attrs of
              None \<Rightarrow> Inl (- 1)
            | Some s \<Rightarrow> Inr (Some s))
         else if value_str a = ''subtree'' then Inr None
         else type_loop all_attrs attrs)
      else type_loop all_attrs attrs)"

text \<open>
  What \<^verbatim>\<open>op_filter_create\<close> does with the payload of a subtree filter before it
  compiles: \<open>Inl\<close> is a \<^verbatim>\<open>return\<close> (\<open>0\<close> for the empty filter, \<open>-1\<close> from the
  \<^verbatim>\<open>default\<close> of the \<^verbatim>\<open>switch\<close>), \<open>Inr\<close> is \<^verbatim>\<open>subtree_filter\<close>.
\<close>

definition subtree_payload :: "ly_ctx \<Rightarrow> lyd_anydata_value \<Rightarrow> int + lyxml_elem list" where
  "subtree_payload ctx v =
     (case v of
        LYD_ANYDATA_CONSTSTRING None \<Rightarrow> Inl 0
      | LYD_ANYDATA_CONSTSTRING (Some str) \<Rightarrow>
          if str = [] then Inl 0 else Inr (lyxml_parse_mem ctx str)
      | LYD_ANYDATA_STRING None \<Rightarrow> Inl 0
      | LYD_ANYDATA_STRING (Some str) \<Rightarrow>
          if str = [] then Inl 0 else Inr (lyxml_parse_mem ctx str)
      | LYD_ANYDATA_XML xml \<Rightarrow> if xml = [] then Inl 0 else Inr xml
      | LYD_ANYDATA_OTHER null \<Rightarrow> if null then Inl 0 else Inl (- 1))"

definition op_filter_create ::
  "ly_ctx \<Rightarrow> lyd_node_anydata \<Rightarrow> string list \<Rightarrow> heap \<Rightarrow> int \<times> string list" where
  "op_filter_create ctx filter_node filters h =
     (case type_loop (attr filter_node) (attr filter_node) of
        Inl rc \<Rightarrow> (rc, filters)
      | Inr None \<Rightarrow>
          (case subtree_payload ctx (val filter_node) of
             Inl rc \<Rightarrow> (rc, filters)
           | Inr subtree_filter \<Rightarrow>
               if subtree_filter = [] then (- 1, filters)
               else
                 (case op_filter_build_xpath_from_subtree ctx subtree_filter filters h of
                    (ret, filters', h') \<Rightarrow>
                      if ret \<noteq> 0 then (- 1, filters') else (0, filters')))
      | Inr (Some a) \<Rightarrow>
          if value_str a = [] then (0, filters)
          else
            (case alloc h of
               (False, h1) \<Rightarrow> (- 1, filters)
             | (True, h1) \<Rightarrow>
                 (case op_filter_xpath_add_filter (value_str a) filters h1 of
                    (rc, filters', h2) \<Rightarrow>
                      if rc \<noteq> 0 then (- 1, filters) else (0, filters'))))"

section \<open>What a heap that never fails makes the compiler append\<close>

text \<open>
  The texts the functions above append, read off the functions themselves at the empty
  buffer, the empty filter list and the heap \<open>[]\<close>.
\<close>

fun the_size :: "buf_size \<Rightarrow> string" where
  "the_size (Size buf) = buf"
| "the_size Zero = []"
| "the_size Negative = []"

definition attrs_text :: "ly_ctx \<Rightarrow> lyxml_attr list \<Rightarrow> string" where
  "attrs_text ctx attrs = the_size (fst (filter_xpath_buf_add_attrs ctx attrs [] []))"

definition node_step :: "ly_ctx \<Rightarrow> lyxml_elem \<Rightarrow> string option \<Rightarrow> string \<Rightarrow> string option" where
  "node_step ctx elem elem_module_name last_ns =
     (case fst (filter_xpath_buf_add_node ctx elem elem_module_name last_ns [] []) of
        Size buf \<Rightarrow> Some buf
      | Zero \<Rightarrow> None
      | Negative \<Rightarrow> None)"

definition content_pred :: "ly_ctx \<Rightarrow> lyxml_elem \<Rightarrow> string option \<Rightarrow> string \<Rightarrow> string option" where
  "content_pred ctx elem elem_module_name last_ns =
     (case fst (filter_xpath_buf_add_content ctx elem elem_module_name last_ns [] []) of
        Size buf \<Rightarrow> Some buf
      | Zero \<Rightarrow> None
      | Negative \<Rightarrow> None)"

definition content_preds ::
  "ly_ctx \<Rightarrow> lyxml_elem list \<Rightarrow> string option \<Rightarrow> string \<Rightarrow> string option" where
  "content_preds ctx children elem_module_name last_ns =
     (case fst (content_match_loop ctx children elem_module_name last_ns [] True []) of
        Size buf \<Rightarrow> Some buf
      | Zero \<Rightarrow> None
      | Negative \<Rightarrow> None)"

definition walk ::
  "ly_ctx \<Rightarrow> lyxml_elem \<Rightarrow> string option \<Rightarrow> string \<Rightarrow> string \<Rightarrow> string list" where
  "walk ctx elem elem_module_name last_ns buf =
     fst (snd (filter_xpath_buf_add ctx elem elem_module_name last_ns buf [] []))"

definition branches :: "ly_ctx \<Rightarrow> lyxml_elem list \<Rightarrow> string \<Rightarrow> string \<Rightarrow> string list" where
  "branches ctx children last_ns buf = fst (snd (branch_loop ctx children last_ns buf [] []))"

text \<open>
  At the top level: the string a top-level content-match node yields, the strings one
  module yields for one top-level element, the modules the resolver finds for it, and the
  strings of a whole sibling list.
\<close>

definition top_content_text :: "ly_ctx \<Rightarrow> lyxml_elem \<Rightarrow> string \<Rightarrow> string" where
  "top_content_text ctx elem elem_module_name =
     hd (fst (snd (filter_xpath_buf_add_top_content ctx elem elem_module_name [] [])))"

definition module_branch :: "ly_ctx \<Rightarrow> lyxml_elem \<Rightarrow> lys_module \<Rightarrow> string list" where
  "module_branch ctx next module =
     fst (snd (modules_loop ctx next [module] [] []))"

definition compiled :: "ly_ctx \<Rightarrow> lyxml_elem list \<Rightarrow> string list" where
  "compiled ctx elems = fst (snd (op_filter_build_xpath_from_subtree ctx elems [] []))"

definition top_modules :: "ly_ctx \<Rightarrow> lyxml_elem \<Rightarrow> lys_module list" where
  "top_modules ctx next =
     (if elem_ns next = None \<or> elem_ns next = Some nc_base_ns then
        filter (\<lambda>module. elem_name next \<in> set (mod_top_nodes module)) (ly_ctx_get_module_iter ctx)
      else
        (case ly_ctx_get_module_by_ns ctx (the (elem_ns next)) of
           None \<Rightarrow> []
         | Some module \<Rightarrow> [module]))"

section \<open>Concrete requests\<close>

definition ctx0 :: ly_ctx where
  "ctx0 = \<lparr>ly_ctx_get_module_by_ns = (\<lambda>ns. None), ly_ctx_get_module_iter = [],
           ly_path_xml2json = (\<lambda>s e. None), lyxml_parse_mem = (\<lambda>s. [])\<rparr>"

definition type_xpath :: lyd_attr where
  "type_xpath = \<lparr>name = ''type'', value_str = ''xpath''\<rparr>"

definition xpath_node :: "string \<Rightarrow> lyd_node_anydata" where
  "xpath_node sel = \<lparr>attr = [type_xpath, \<lparr>name = ''select'', value_str = sel\<rparr>],
                    val = LYD_ANYDATA_CONSTSTRING None\<rparr>"

definition xpath_node_no_select :: lyd_node_anydata where
  "xpath_node_no_select = \<lparr>attr = [type_xpath], val = LYD_ANYDATA_CONSTSTRING None\<rparr>"

definition type_subtree :: lyd_attr where
  "type_subtree = \<lparr>name = ''type'', value_str = ''subtree''\<rparr>"

definition subtree_node :: "lyd_anydata_value \<Rightarrow> lyd_node_anydata" where
  "subtree_node v = \<lparr>attr = [type_subtree], val = v\<rparr>"

text \<open>One module \<open>m\<close> with the namespace \<open>urn:a\<close> and the top-level node \<open>a\<close>.\<close>

definition m_a :: lys_module where
  "m_a = \<lparr>mod_name = ''m'', mod_ns = ''urn:a'', mod_top_nodes = [''a'']\<rparr>"

definition ctx_a :: ly_ctx where
  "ctx_a = \<lparr>ly_ctx_get_module_by_ns = (\<lambda>ns. if ns = ''urn:a'' then Some m_a else None),
            ly_ctx_get_module_iter = [m_a],
            ly_path_xml2json = (\<lambda>s e. None), lyxml_parse_mem = (\<lambda>s. [])\<rparr>"

definition typeless_node :: lyd_node_anydata where
  "typeless_node = \<lparr>attr = [\<lparr>name = ''type'', value_str = ''other''\<rparr>,
                           \<lparr>name = ''select'', value_str = ''/a''\<rparr>],
                    val = LYD_ANYDATA_XML [Elem ''a'' None [] None []]\<rparr>"

text \<open>
  The filter
  \<^verbatim>\<open><interfaces xmlns="urn:ietf:params:xml:ns:yang:ietf-interfaces"><interface><name>eth0</name></interface></interfaces>\<close>:
  the two inner elements carry the default namespace they inherit.
\<close>

definition if_ns :: string where
  "if_ns = ''urn:ietf:params:xml:ns:yang:ietf-interfaces''"

definition name_eth0 :: lyxml_elem where
  "name_eth0 = Elem ''name'' (Some if_ns) [] (Some ''eth0'') []"

definition eth0_filter :: lyxml_elem where
  "eth0_filter =
     Elem ''interfaces'' (Some if_ns) [] None [Elem ''interface'' (Some if_ns) [] None [name_eth0]]"

definition eth0_xpath :: string where
  "eth0_xpath =
     ''/ietf-interfaces:interfaces/interface[name='' @ [squote] @ ''eth0'' @ [squote] @ '']''"

definition m_if :: lys_module where
  "m_if = \<lparr>mod_name = ''ietf-interfaces'', mod_ns = if_ns, mod_top_nodes = [''interfaces'']\<rparr>"

definition ctx_if :: ly_ctx where
  "ctx_if = \<lparr>ly_ctx_get_module_by_ns = (\<lambda>ns. if ns = if_ns then Some m_if else None),
             ly_ctx_get_module_iter = [m_if],
             ly_path_xml2json = (\<lambda>s e. None), lyxml_parse_mem = (\<lambda>s. [])\<rparr>"










text \<open>
  Filters in the namespace \<open>urn:a\<close>: \<^verbatim>\<open><a><b>x</b><c/></a>\<close>, \<^verbatim>\<open><a><b><c/></b><d/></a>\<close>,
  \<^verbatim>\<open><a>O'Brien</a>\<close> and \<^verbatim>\<open><a><b>O'Brien</b></a>\<close>.
\<close>

definition bc_filter :: lyxml_elem where
  "bc_filter = Elem ''a'' (Some ''urn:a'') [] None
                 [Elem ''b'' (Some ''urn:a'') [] (Some ''x'') [],
                  Elem ''c'' (Some ''urn:a'') [] None []]"

definition bd_filter :: lyxml_elem where
  "bd_filter = Elem ''a'' (Some ''urn:a'') [] None
                 [Elem ''b'' (Some ''urn:a'') [] None [Elem ''c'' (Some ''urn:a'') [] None []],
                  Elem ''d'' (Some ''urn:a'') [] None []]"

definition obrien :: string where
  "obrien = ''O'' @ [squote] @ ''Brien''"

definition top_obrien :: lyxml_elem where
  "top_obrien = Elem ''a'' (Some ''urn:a'') [] (Some obrien) []"

definition nested_obrien :: lyxml_elem where
  "nested_obrien = Elem ''a'' (Some ''urn:a'') [] None [Elem ''b'' (Some ''urn:a'') [] (Some obrien) []]"

text \<open>
  More filters: \<^verbatim>\<open><a><b>x</b><c/><e>y</e></a>\<close> in \<open>urn:a\<close>, and a content-match element
  \<open>u\<close> of an unknown namespace as the child of the top-level \<open>a\<close> and as a child of \<open>b\<close>
  one level down: \<^verbatim>\<open><a><u xmlns="urn:unknown">x</u></a>\<close> and
  \<^verbatim>\<open><a><b><u xmlns="urn:unknown">x</u><c/></b><d/></a>\<close>.
\<close>

definition bce_filter :: lyxml_elem where
  "bce_filter = Elem ''a'' (Some ''urn:a'') [] None
                  [Elem ''b'' (Some ''urn:a'') [] (Some ''x'') [],
                   Elem ''c'' (Some ''urn:a'') [] None [],
                   Elem ''e'' (Some ''urn:a'') [] (Some ''y'') []]"





text \<open>The quote character \<^verbatim>\<open>filter_xpath_buf_add_content\<close> chooses for a content.\<close>

definition quot_of :: "string \<Rightarrow> char" where
  "quot_of content = (if squote \<in> set content then dquote else squote)"

section \<open>The compiler on a heap that never fails\<close>

lemmas compile_simps =
  op_filter_create_def subtree_payload_def filter_xpath_buf_add_node_def
  filter_xpath_buf_add_content_def filter_xpath_buf_add_top_content_def
  filter_xpath_buf_get_content_def elem_module_def qname_def content_match_node_def
  op_filter_xpath_add_filter_def isspace_def squote_def dquote_def nc_base_ns_def Let_def

lemma add_attrs_nofail_aux:
  "\<exists>t. \<forall>buf. filter_xpath_buf_add_attrs ctx attrs buf [] = (Size (buf @ t), [])"
proof (induction attrs)
  case Nil
  show ?case by simp
next
  case (Cons a attrs)
  then obtain t where t: "\<And>buf. filter_xpath_buf_add_attrs ctx attrs buf [] = (Size (buf @ t), [])"
    by blast
  show ?case
  proof (cases "attr_type a = LYXML_ATTR_STD \<and> (case attr_ns a of None \<Rightarrow> None | Some ns \<Rightarrow> ly_ctx_get_module_by_ns ctx ns) \<noteq> None")
    case True
    then obtain m where m: "(case attr_ns a of None \<Rightarrow> None | Some ns \<Rightarrow> ly_ctx_get_module_by_ns ctx ns) = Some m"
      by blast
    have "\<forall>buf. filter_xpath_buf_add_attrs ctx (a # attrs) buf [] =
        (Size (buf @ (''[@'' @ mod_name m @ '':'' @ attr_name a @ ''=''
                       @ [squote] @ attr_value a @ [squote] @ '']'' @ t)), [])"
      using True m t by simp
    then show ?thesis by blast
  next
    case False
    then have "\<forall>buf. filter_xpath_buf_add_attrs ctx (a # attrs) buf [] = (Size (buf @ t), [])"
      using t by (auto split: option.splits)
    then show ?thesis by blast
  qed
qed

lemma add_attrs_nofail:
  "filter_xpath_buf_add_attrs ctx attrs buf [] = (Size (buf @ attrs_text ctx attrs), [])"
proof -
  obtain t where t: "\<And>buf. filter_xpath_buf_add_attrs ctx attrs buf [] = (Size (buf @ t), [])"
    using add_attrs_nofail_aux by blast
  have "attrs_text ctx attrs = t"
    using t [of "[]"] by (simp add: attrs_text_def)
  then show ?thesis using t by simp
qed

lemma node_step_eq:
  "node_step ctx elem emn last_ns =
     (case elem_module ctx elem emn last_ns of
        None \<Rightarrow> None
      | Some m \<Rightarrow> Some (''/'' @ qname m (elem_name elem) @ attrs_text ctx (elem_attr elem)))"
  by (simp add: node_step_def filter_xpath_buf_add_node_def add_attrs_nofail split: option.splits)

lemma add_node_nofail:
  "filter_xpath_buf_add_node ctx elem emn last_ns buf [] =
     (case node_step ctx elem emn last_ns of
        None \<Rightarrow> (Zero, [])
      | Some step \<Rightarrow> (Size (buf @ step), []))"
  by (simp add: node_step_eq filter_xpath_buf_add_node_def add_attrs_nofail split: option.splits)

lemma content_pred_eq:
  "content_pred ctx elem emn last_ns =
     (case elem_module ctx elem emn last_ns of
        None \<Rightarrow> None
      | Some m \<Rightarrow>
          Some (''['' @ qname m (elem_name elem) @ attrs_text ctx (elem_attr elem) @ ''=''
                @ [if squote \<in> set (filter_xpath_buf_get_content ctx elem) then dquote else squote]
                @ filter_xpath_buf_get_content ctx elem
                @ [if squote \<in> set (filter_xpath_buf_get_content ctx elem) then dquote else squote]
                @ '']''))"
  by (simp add: content_pred_def filter_xpath_buf_add_content_def add_attrs_nofail Let_def
           split: option.splits)

lemma add_content_nofail:
  "filter_xpath_buf_add_content ctx elem emn last_ns buf [] =
     (case content_pred ctx elem emn last_ns of
        None \<Rightarrow> (Zero, [])
      | Some p \<Rightarrow> (Size (buf @ p), []))"
  by (simp add: content_pred_eq filter_xpath_buf_add_content_def add_attrs_nofail Let_def
           split: option.splits)

lemma content_match_loop_buf:
  "content_match_loop ctx cs emn ns buf only [] =
     (case content_match_loop ctx cs emn ns [] only [] of
        (Size p, r) \<Rightarrow> (Size (buf @ p), r)
      | (Zero, r) \<Rightarrow> (Zero, r)
      | (Negative, r) \<Rightarrow> (Negative, r))"
proof (induction cs arbitrary: buf only)
  case Nil
  show ?case by simp
next
  case (Cons c cs)
  show ?case
  proof (cases "content_match_node c")
    case False
    then show ?thesis using Cons.IH [of buf False] by simp
  next
    case True
    show ?thesis
    proof (cases "content_pred ctx c emn ns")
      case None
      then show ?thesis using True by (simp add: add_content_nofail)
    next
      case (Some q)
      have "content_match_loop ctx (c # cs) emn ns buf only [] =
              content_match_loop ctx cs emn ns (buf @ q) only []"
        using True Some by (simp add: add_content_nofail)
      moreover have "content_match_loop ctx (c # cs) emn ns [] only [] =
              content_match_loop ctx cs emn ns q only []"
        using True Some by (simp add: add_content_nofail)
      ultimately show ?thesis
        using Cons.IH [of "buf @ q" only] Cons.IH [of q only]
        by (simp split: prod.splits buf_size.splits)
    qed
  qed
qed

lemma content_match_loop_flag:
  "content_match_loop ctx cs emn ns buf only [] = (r, only', h) \<Longrightarrow>
     h = [] \<and> r \<noteq> Negative \<and> (r \<noteq> Zero \<longrightarrow> only' = (only \<and> list_all content_match_node cs))"
proof (induction cs arbitrary: buf only)
  case Nil
  then show ?case by auto
next
  case (Cons c cs)
  show ?case
  proof (cases "content_match_node c")
    case False
    then show ?thesis using Cons.IH [of buf False] Cons.prems by simp
  next
    case True
    show ?thesis
    proof (cases "content_pred ctx c emn ns")
      case None
      then show ?thesis using True Cons.prems by (auto simp: add_content_nofail)
    next
      case (Some q)
      then show ?thesis using True Cons.prems Cons.IH [of "buf @ q" only]
        by (simp add: add_content_nofail)
    qed
  qed
qed

lemma content_match_loop_cases:
  "content_match_loop ctx cs emn ns buf True [] =
     (case content_preds ctx cs emn ns of
        None \<Rightarrow> (Zero, fst (snd (content_match_loop ctx cs emn ns buf True [])), [])
      | Some p \<Rightarrow> (Size (buf @ p), list_all content_match_node cs, []))"
proof -
  obtain r only' h where e: "content_match_loop ctx cs emn ns [] True [] = (r, only', h)"
    by (cases "content_match_loop ctx cs emn ns [] True []") auto
  obtain r2 only2 h2 where e2: "content_match_loop ctx cs emn ns buf True [] = (r2, only2, h2)"
    by (cases "content_match_loop ctx cs emn ns buf True []") auto
  have f: "h = []" "r \<noteq> Negative" "r \<noteq> Zero \<longrightarrow> only' = list_all content_match_node cs"
    using content_match_loop_flag [OF e] by simp_all
  have f2: "h2 = []" "r2 \<noteq> Negative" "r2 \<noteq> Zero \<longrightarrow> only2 = list_all content_match_node cs"
    using content_match_loop_flag [OF e2] by simp_all
  note b = content_match_loop_buf [of ctx cs emn ns buf True]
  show ?thesis
  proof (cases r)
    case (Size p)
    then have "content_preds ctx cs emn ns = Some p"
      using e by (simp add: content_preds_def)
    moreover have "r2 = Size (buf @ p)" using b e e2 Size by simp
    ultimately show ?thesis using e2 f2 by simp
  next
    case Zero
    then have "content_preds ctx cs emn ns = None"
      using e by (simp add: content_preds_def)
    moreover have "r2 = Zero" using b e e2 Zero by simp
    ultimately show ?thesis using e2 f2 by simp
  next
    case Negative
    then show ?thesis using f by simp
  qed
qed

lemma content_match_loop_None:
  "content_preds ctx cs emn ns = None \<Longrightarrow>
     \<exists>only'. content_match_loop ctx cs emn ns buf True [] = (Zero, only', [])"
  using content_match_loop_cases [of ctx cs emn ns buf] by (simp, metis)

lemma content_match_loop_Some:
  "content_preds ctx cs emn ns = Some p \<Longrightarrow>
     content_match_loop ctx cs emn ns buf True [] =
       (Size (buf @ p), list_all content_match_node cs, [])"
  using content_match_loop_cases [of ctx cs emn ns buf] by simp

lemma add_filter_nofail:
  "op_filter_xpath_add_filter new_filter filters [] = (0, filters @ [new_filter], [])"
  by (simp add: op_filter_xpath_add_filter_def)

lemma branch_loop_nofail_aux:
  assumes "\<And>c emn fs buf. c \<in> set cs \<Longrightarrow>
             filter_xpath_buf_add ctx c emn ns buf fs [] = (0, fs @ walk ctx c emn ns buf, [])"
  shows "branch_loop ctx cs ns buf fs [] = (0, fs @ branches ctx cs ns buf, [])"
  using assms
proof (induction cs arbitrary: fs)
  case Nil
  show ?case by (simp add: branches_def)
next
  case (Cons c cs)
  have w: "filter_xpath_buf_add ctx c None ns buf fs [] = (0, fs @ walk ctx c None ns buf, [])" for fs
    using Cons.prems by simp
  have ih: "branch_loop ctx cs ns buf fs [] = (0, fs @ branches ctx cs ns buf, [])" for fs
    using Cons.IH Cons.prems by simp
  have al: "(if cs = [] then (True, []) else alloc []) = (True, [])"
    by simp
  show ?case
  proof (cases "elem_child c \<noteq> []")
    case True
    have a: "branch_loop ctx (c # cs) ns buf fs [] =
               (0, fs @ walk ctx c None ns buf @ branches ctx cs ns buf, [])" for fs
      using True w ih al by simp
    show ?thesis
      using a [of fs] a [of "[]"] by (simp add: branches_def)
  next
    case False
    show ?thesis
    proof (cases "node_step ctx c None ns")
      case None
      have a: "branch_loop ctx (c # cs) ns buf fs [] = (0, fs @ branches ctx cs ns buf, [])" for fs
        using False None ih al by (simp add: add_node_nofail)
      show ?thesis
        using a [of fs] a [of "[]"] by (simp add: branches_def)
    next
      case (Some st)
      have a: "branch_loop ctx (c # cs) ns buf fs [] =
                 (0, fs @ [buf @ st] @ branches ctx cs ns buf, [])" for fs
        using False Some ih al by (simp add: add_node_nofail add_filter_nofail)
      show ?thesis
        using a [of fs] a [of "[]"] by (simp add: branches_def)
    qed
  qed
qed

lemma filter_xpath_buf_add_nofail:
  "filter_xpath_buf_add ctx elem emn ns buf fs [] = (0, fs @ walk ctx elem emn ns buf, [])"
proof (induction elem arbitrary: emn buf fs)
  case (Elem nm ens attrs content children)
  let ?e = "Elem nm ens attrs content children"
  have br: "branch_loop ctx children ns buf fs [] = (0, fs @ branches ctx children ns buf, [])"
    for buf fs
    using branch_loop_nofail_aux [of children ctx ns] Elem.IH by simp
  show ?case
  proof (cases "node_step ctx ?e emn ns")
    case None
    then show ?thesis by (simp add: walk_def add_node_nofail)
  next
    case (Some st)
    note st = Some
    show ?thesis
    proof (cases "content_preds ctx children emn ns")
      case None
      have z: "\<exists>only'. content_match_loop ctx children emn ns buf True [] = (Zero, only', [])" for buf
        using content_match_loop_None [OF None] by simp
      have a: "filter_xpath_buf_add ctx ?e emn ns buf fs [] = (0, fs, [])" for fs
        using st z [of "buf @ st"] by (auto simp: add_node_nofail)
      show ?thesis
        using a [of fs] a [of "[]"] by (simp add: walk_def)
    next
      case (Some p)
      have a: "filter_xpath_buf_add ctx ?e emn ns buf fs [] =
             (0, fs @ (if list_all content_match_node children then [buf @ st @ p]
                       else branches ctx children ns (buf @ st @ p)), [])" for fs
        using st br
        by (simp add: add_node_nofail content_match_loop_Some [OF Some] add_filter_nofail)
      show ?thesis
        using a [of fs] a [of "[]"] by (simp add: walk_def)
    qed
  qed
qed

lemma branch_loop_nofail:
  "branch_loop ctx cs ns buf fs [] = (0, fs @ branches ctx cs ns buf, [])"
  by (rule branch_loop_nofail_aux) (rule filter_xpath_buf_add_nofail)

lemma walk_eq:
  "walk ctx elem emn ns buf =
     (case node_step ctx elem emn ns of
        None \<Rightarrow> []
      | Some st \<Rightarrow>
          (case content_preds ctx (elem_child elem) emn ns of
             None \<Rightarrow> []
           | Some p \<Rightarrow>
               if list_all content_match_node (elem_child elem) then [buf @ st @ p]
               else branches ctx (elem_child elem) ns (buf @ st @ p)))"
proof (cases elem)
  case (Elem nm ens attrs content children)
  show ?thesis
  proof (cases "node_step ctx elem emn ns")
    case None
    then show ?thesis using Elem by (simp add: walk_def add_node_nofail)
  next
    case (Some st)
    note st = Some
    show ?thesis
    proof (cases "content_preds ctx children emn ns")
      case None
      obtain only' where
        "content_match_loop ctx children emn ns (buf @ st) True [] = (Zero, only', [])"
        using content_match_loop_None [OF None] by blast
      then show ?thesis using st None Elem by (simp add: walk_def add_node_nofail)
    next
      case (Some p)
      show ?thesis using st Some Elem
        by (simp add: walk_def add_node_nofail content_match_loop_Some [OF Some]
              add_filter_nofail branch_loop_nofail)
    qed
  qed
qed

lemma branches_Nil: "branches ctx [] ns buf = []"
  by (simp add: branches_def)

lemma branches_Cons:
  "branches ctx (c # cs) ns buf =
     (if elem_child c \<noteq> [] then walk ctx c None ns buf
      else (case node_step ctx c None ns of None \<Rightarrow> [] | Some st \<Rightarrow> [buf @ st]))
     @ branches ctx cs ns buf"
proof -
  have al: "(if cs = [] then (True, []) else alloc []) = (True, [])"
    by simp
  have "branch_loop ctx (c # cs) ns buf [] [] =
          (0, (if elem_child c \<noteq> [] then walk ctx c None ns buf
               else (case node_step ctx c None ns of None \<Rightarrow> [] | Some st \<Rightarrow> [buf @ st]))
              @ branches ctx cs ns buf, [])"
    apply (subst branch_loop.simps)
    using al
    apply (simp add: filter_xpath_buf_add_nofail branch_loop_nofail add_node_nofail
          add_filter_nofail split: option.splits)
    done
  then show ?thesis
    by (simp add: branches_def [of ctx "c # cs"])
qed

lemma add_top_content_nofail:
  "filter_xpath_buf_add_top_content ctx elem emn fs [] =
     (0, fs @ [''/'' @ emn @ '':'' @ elem_name elem @ ''[text()='' @ [squote]
               @ filter_xpath_buf_get_content ctx elem @ [squote] @ '']''
               @ attrs_text ctx (elem_attr elem)], [])"
  by (simp add: filter_xpath_buf_add_top_content_def add_attrs_nofail add_filter_nofail Let_def)

lemma top_content_text_eq:
  "top_content_text ctx elem emn =
     ''/'' @ emn @ '':'' @ elem_name elem @ ''[text()='' @ [squote]
       @ filter_xpath_buf_get_content ctx elem @ [squote] @ '']''
       @ attrs_text ctx (elem_attr elem)"
  by (simp add: top_content_text_def add_top_content_nofail)

lemma module_branch_eq:
  "module_branch ctx next module =
     (if content_match_node next then [top_content_text ctx next (mod_name module)]
      else walk ctx next (Some (mod_name module)) (mod_ns module) [])"
  by (simp add: module_branch_def add_top_content_nofail top_content_text_eq
        filter_xpath_buf_add_nofail)

lemma modules_loop_nofail:
  "modules_loop ctx next modules fs [] =
     (0, fs @ concat (map (module_branch ctx next) modules), [])"
  by (induction modules arbitrary: fs)
     (simp_all add: module_branch_eq add_top_content_nofail top_content_text_eq
        filter_xpath_buf_add_nofail)

lemma module_iter_loop_nofail:
  "module_iter_loop nm modules acc [] =
     (Some (acc @ filter (\<lambda>module. nm \<in> set (mod_top_nodes module)) modules), [])"
  by (induction modules arbitrary: acc) simp_all

lemma build_step_nofail:
  "op_filter_build_xpath_from_subtree ctx (next # elems) fs [] =
     op_filter_build_xpath_from_subtree ctx elems
       (fs @ concat (map (module_branch ctx next) (top_modules ctx next))) []"
  by (cases "elem_ns next")
     (auto simp: top_modules_def module_iter_loop_nofail modules_loop_nofail
        module_branch_eq add_top_content_nofail top_content_text_eq filter_xpath_buf_add_nofail
        split: option.splits)

lemma build_nofail:
  "op_filter_build_xpath_from_subtree ctx elems fs [] =
     (0, fs @ concat (map (\<lambda>next. concat (map (module_branch ctx next) (top_modules ctx next)))
                       elems), [])"
  by (induction elems arbitrary: fs) (simp_all add: build_step_nofail del: op_filter_build_xpath_from_subtree.simps(2))

lemma compiled_eq:
  "compiled ctx elems =
     concat (map (\<lambda>next. concat (map (module_branch ctx next) (top_modules ctx next))) elems)"
  by (simp add: compiled_def build_nofail)

lemma build_compiled:
  "op_filter_build_xpath_from_subtree ctx elems fs [] = (0, fs @ compiled ctx elems, [])"
  by (simp add: compiled_eq build_nofail)

lemma branches_prefix_aux:
  assumes "\<And>c emn buf s. c \<in> set cs \<Longrightarrow> s \<in> set (walk ctx c emn ns buf) \<Longrightarrow> prefix buf s"
    and "s \<in> set (branches ctx cs ns buf)"
  shows "prefix buf s"
  using assms
proof (induction cs)
  case Nil
  then show ?case by (simp add: branches_Nil)
next
  case (Cons c cs)
  have ih: "prefix buf s" if "s \<in> set (branches ctx cs ns buf)"
  proof (rule Cons.IH [OF _ that])
    fix c' emn' buf' s'
    assume "c' \<in> set cs" "s' \<in> set (walk ctx c' emn' ns buf')"
    then show "prefix buf' s'" using Cons.prems(1) [of c' s' emn' buf'] by simp
  qed
  show ?case
  proof (cases "s \<in> set (branches ctx cs ns buf)")
    case True
    then show ?thesis by (rule ih)
  next
    case False
    show ?thesis
    proof (cases "elem_child c \<noteq> []")
      case True
      then have "s \<in> set (walk ctx c None ns buf)"
        using Cons.prems(2) False by (simp add: branches_Cons)
      then show ?thesis using Cons.prems(1) [of c s None buf] by simp
    next
      case leaf: False
      show ?thesis
      proof (cases "node_step ctx c None ns")
        case None
        then show ?thesis using Cons.prems(2) False leaf by (simp add: branches_Cons)
      next
        case (Some st)
        then have "s = buf @ st"
          using Cons.prems(2) False leaf by (simp add: branches_Cons)
        then show ?thesis by simp
      qed
    qed
  qed
qed

lemma walk_prefix:
  "s \<in> set (walk ctx elem emn ns buf) \<Longrightarrow> prefix buf s"
proof (induction elem arbitrary: emn buf s)
  case (Elem nm ens attrs content children)
  let ?e = "Elem nm ens attrs content children"
  show ?case
  proof (cases "node_step ctx ?e emn ns")
    case None
    then show ?thesis using Elem.prems by (simp add: walk_eq)
  next
    case (Some st)
    note st = Some
    show ?thesis
    proof (cases "content_preds ctx children emn ns")
      case None
      then show ?thesis using Elem.prems st by (simp add: walk_eq)
    next
      case (Some p)
      show ?thesis
      proof (cases "list_all content_match_node children")
        case True
        then have "s = buf @ st @ p" using Elem.prems st Some by (simp add: walk_eq)
        then show ?thesis by simp
      next
        case False
        then have "s \<in> set (branches ctx children ns (buf @ st @ p))"
          using Elem.prems st Some by (simp add: walk_eq)
        then have "prefix (buf @ st @ p) s"
          using branches_prefix_aux [of children ctx ns s "buf @ st @ p"] Elem.IH by blast
        then show ?thesis using append_prefixD by blast
      qed
    qed
  qed
qed

lemma branches_prefix:
  "s \<in> set (branches ctx cs ns buf) \<Longrightarrow> prefix buf s"
  using branches_prefix_aux walk_prefix by blast

lemma walk_prefix_step:
  assumes "s \<in> set (walk ctx elem emn ns buf)"
    and "node_step ctx elem emn ns = Some st"
    and "content_preds ctx (elem_child elem) emn ns = Some p"
  shows "prefix (buf @ st @ p) s"
  using assms branches_prefix [of s ctx "elem_child elem" ns "buf @ st @ p"]
  by (auto simp: walk_eq split: if_splits)

lemma branches_concat:
  "branches ctx cs ns buf =
     concat (map (\<lambda>c. if elem_child c \<noteq> [] then walk ctx c None ns buf
                       else (case node_step ctx c None ns of None \<Rightarrow> [] | Some st \<Rightarrow> [buf @ st]))
                 cs)"
  by (induction cs) (simp_all add: branches_Nil branches_Cons)






lemma content_match_loop_map:
  assumes "map (\<lambda>c. content_pred ctx c emn ns) (filter content_match_node cs) = map Some ps"
  shows "content_match_loop ctx cs emn ns buf only [] =
           (Size (buf @ concat ps), only \<and> list_all content_match_node cs, [])"
  using assms
proof (induction cs arbitrary: buf only ps)
  case Nil
  then show ?case by simp
next
  case (Cons c cs)
  show ?case
  proof (cases "content_match_node c")
    case False
    then show ?thesis using Cons.IH [of ps buf False] Cons.prems by simp
  next
    case True
    then obtain p ps' where ps: "ps = p # ps'" "content_pred ctx c emn ns = Some p"
      "map (\<lambda>c. content_pred ctx c emn ns) (filter content_match_node cs) = map Some ps'"
      using Cons.prems by (cases ps) auto
    show ?thesis
      using True ps(1,2) Cons.IH [OF ps(3), of "buf @ p" only]
      by (simp add: add_content_nofail)
  qed
qed

lemma content_preds_map:
  assumes "map (\<lambda>c. content_pred ctx c emn ns) (filter content_match_node cs) = map Some ps"
  shows "content_preds ctx cs emn ns = Some (concat ps)"
  using content_match_loop_map [OF assms, of "[]" True] by (simp add: content_preds_def)




section \<open>The dispatcher\<close>

text \<open>
  The attribute loop stops at the first attribute named \<open>type\<close> whose value is
  \<open>xpath\<close> or \<open>subtree\<close>; that attribute decides the kind of the request.
\<close>

lemma type_loop_find:
  "type_loop all_attrs attrs =
     (case find (\<lambda>a. name a = ''type'' \<and> (value_str a = ''xpath'' \<or> value_str a = ''subtree''))
             attrs of
        None \<Rightarrow> Inr None
      | Some t \<Rightarrow>
          if value_str t = ''xpath'' then
            (case find (\<lambda>s. name s = ''select'') all_attrs of
               None \<Rightarrow> Inl (- 1)
             | Some s \<Rightarrow> Inr (Some s))
          else Inr None)"
  by (induction attrs) auto

text \<open>
  Claim C4. A request of type \<open>xpath\<close> (the deciding \<open>type\<close> attribute has the value
  \<open>xpath\<close>): without a \<open>select\<close> attribute \<^verbatim>\<open>op_filter_create\<close> returns \<open>-1\<close>, whatever
  the heap does; with an empty \<open>select\<close> it returns \<open>0\<close> and adds nothing; with a
  \<open>select\<close> that is not empty, and a heap that does not fail, it returns \<open>0\<close> and appends
  the select string as it is, so that an empty filter list becomes the one-element list
  of that string.
\<close>

theorem C4_xpath_select:
  assumes "find (\<lambda>a. name a = ''type'' \<and> (value_str a = ''xpath'' \<or> value_str a = ''subtree''))
             (attr filter_node) = Some t"
    and "value_str t = ''xpath''"
  shows "(find (\<lambda>s. name s = ''select'') (attr filter_node) = None \<longrightarrow>
            fst (op_filter_create ctx filter_node filters h) = - 1)
       \<and> (\<forall>s. find (\<lambda>s. name s = ''select'') (attr filter_node) = Some s \<longrightarrow>
            (value_str s = [] \<longrightarrow> op_filter_create ctx filter_node filters h = (0, filters))
          \<and> (value_str s \<noteq> [] \<longrightarrow>
               op_filter_create ctx filter_node filters [] = (0, filters @ [value_str s])
             \<and> op_filter_create ctx filter_node [] [] = (0, [value_str s])))"
  using assms
  by (auto simp: op_filter_create_def type_loop_find op_filter_xpath_add_filter_def)

theorem C4_xpath_select_witness:
  "op_filter_create ctx0 (xpath_node ''/a:b'') [] [] = (0, [''/a:b''])
   \<and> op_filter_create ctx0 (xpath_node '''') [] [] = (0, [])
   \<and> fst (op_filter_create ctx0 xpath_node_no_select [] []) = - 1"
  using C4_xpath_select [of "xpath_node ''/a:b''" type_xpath ctx0 "[]" "[]"]
        C4_xpath_select [of "xpath_node ''''" type_xpath ctx0 "[]" "[]"]
        C4_xpath_select [of xpath_node_no_select type_xpath ctx0 "[]" "[]"]
  by (simp add: xpath_node_def xpath_node_no_select_def type_xpath_def)

lemma type_loop_none:
  assumes "\<forall>a \<in> set attrs. name a = ''type'' \<longrightarrow>
             value_str a \<noteq> ''xpath'' \<and> value_str a \<noteq> ''subtree''"
  shows "type_loop all_attrs attrs = Inr None"
  using assms by (induction attrs) auto

text \<open>
  Claim C10. When no attribute is named \<open>type\<close>, or every attribute of that name has
  a value that is neither \<open>xpath\<close> nor \<open>subtree\<close>, the loop leaves \<^verbatim>\<open>attr = NULL\<close> and
  \<^verbatim>\<open>op_filter_create\<close> does what it does for the same node with the one attribute
  \<open>type="subtree"\<close>: a parsed XML payload, or a string payload that the parser turns into
  elements, is compiled by \<^verbatim>\<open>op_filter_build_xpath_from_subtree\<close>.
\<close>

theorem C10_default_subtree:
  assumes "\<forall>a \<in> set (attr filter_node).
             name a = ''type'' \<longrightarrow> value_str a \<noteq> ''xpath'' \<and> value_str a \<noteq> ''subtree''"
  shows "type_loop (attr filter_node) (attr filter_node) = Inr None
       \<and> op_filter_create ctx filter_node filters h =
           op_filter_create ctx (filter_node\<lparr>attr := [type_subtree]\<rparr>) filters h
       \<and> (\<forall>xml. val filter_node = LYD_ANYDATA_XML xml \<and> xml \<noteq> [] \<longrightarrow>
            op_filter_create ctx filter_node filters h =
              (case op_filter_build_xpath_from_subtree ctx xml filters h of
                 (ret, filters', h') \<Rightarrow> if ret \<noteq> 0 then (- 1, filters') else (0, filters')))
       \<and> (\<forall>str. (val filter_node = LYD_ANYDATA_STRING (Some str)
                 \<or> val filter_node = LYD_ANYDATA_CONSTSTRING (Some str))
                \<and> str \<noteq> [] \<and> lyxml_parse_mem ctx str \<noteq> [] \<longrightarrow>
            op_filter_create ctx filter_node filters h =
              (case op_filter_build_xpath_from_subtree ctx (lyxml_parse_mem ctx str) filters h of
                 (ret, filters', h') \<Rightarrow> if ret \<noteq> 0 then (- 1, filters') else (0, filters')))"
  using type_loop_none [OF assms, of "attr filter_node"]
  by (auto simp: op_filter_create_def type_subtree_def subtree_payload_def)

theorem C10_default_subtree_witness:
  "op_filter_create ctx_a typeless_node [] [] = (0, [''/m:a''])"
  using C10_default_subtree [of typeless_node ctx_a "[]" "[]"]
  apply (simp add: typeless_node_def type_subtree_def)
  apply (simp add: compile_simps ctx_a_def m_a_def)
  done

text \<open>
  Claim C3, as the source has it. A subtree request whose payload is absent (a
  \<^verbatim>\<open>NULL\<close> pointer) or is the empty string returns \<open>0\<close> and leaves the filter list as
  it was, whatever the heap does. The only test is \<^verbatim>\<open>!value.str[0]\<close>: a string payload
  that is not empty, white space included, goes to \<^verbatim>\<open>lyxml_parse_mem\<close>, and when the
  parser returns no element \<^verbatim>\<open>op_filter_create\<close> returns \<open>-1\<close>.
\<close>

theorem C3_empty_subtree_payload:
  assumes "type_loop (attr filter_node) (attr filter_node) = Inr None"
  shows "(val filter_node \<in> {LYD_ANYDATA_CONSTSTRING None, LYD_ANYDATA_STRING None,
                             LYD_ANYDATA_CONSTSTRING (Some []), LYD_ANYDATA_STRING (Some []),
                             LYD_ANYDATA_XML [], LYD_ANYDATA_OTHER True} \<longrightarrow>
            op_filter_create ctx filter_node filters h = (0, filters))
       \<and> (\<forall>str. (val filter_node = LYD_ANYDATA_STRING (Some str)
                 \<or> val filter_node = LYD_ANYDATA_CONSTSTRING (Some str))
                \<and> str \<noteq> [] \<and> lyxml_parse_mem ctx str = [] \<longrightarrow>
            op_filter_create ctx filter_node filters h = (- 1, filters))"
  using assms
  by (auto simp: op_filter_create_def subtree_payload_def)

theorem C3_empty_subtree_payload_witness:
  "op_filter_create ctx0 (subtree_node (LYD_ANYDATA_STRING (Some ''''))) [] [] = (0, [])
   \<and> op_filter_create ctx0 (subtree_node (LYD_ANYDATA_CONSTSTRING None)) [] [] = (0, [])
   \<and> op_filter_create ctx0 (subtree_node (LYD_ANYDATA_STRING (Some '' ''))) [] [] = (- 1, [])"
  using C3_empty_subtree_payload [of "subtree_node (LYD_ANYDATA_STRING (Some ''''))" ctx0 "[]" "[]"]
    C3_empty_subtree_payload [of "subtree_node (LYD_ANYDATA_CONSTSTRING None)" ctx0 "[]" "[]"]
    C3_empty_subtree_payload [of "subtree_node (LYD_ANYDATA_STRING (Some '' ''))" ctx0 "[]" "[]"]
  by (simp add: subtree_node_def type_subtree_def ctx0_def)

text \<open>
  The claim as the specification states it fails: the payload of two spaces is white space
  only, the parser finds no element in it, and the request is refused.
\<close>

theorem C3_whitespace_payload_counterexample:
  "strws ''  ''
   \<and> op_filter_create ctx0 (subtree_node (LYD_ANYDATA_STRING (Some ''  ''))) [] [] = (- 1, [])"
  by (simp add: op_filter_create_def subtree_node_def type_subtree_def subtree_payload_def
        ctx0_def isspace_def)

section \<open>The subtree compiler\<close>

lemma if_ns_not_base: "if_ns \<noteq> nc_base_ns"
  by (simp add: if_ns_def nc_base_ns_def)

lemma content_eth0:
  assumes "ly_path_xml2json ctx ''eth0'' name_eth0 = None
           \<or> ly_path_xml2json ctx ''eth0'' name_eth0 = Some ''eth0''"
  shows "filter_xpath_buf_get_content ctx name_eth0 = ''eth0''"
  using assms by (auto simp: filter_xpath_buf_get_content_def name_eth0_def isspace_def)

lemma build_eth0:
  assumes "ly_ctx_get_module_by_ns ctx if_ns = Some module"
    and "mod_name module = ''ietf-interfaces''"
    and "mod_ns module = if_ns"
    and "ly_path_xml2json ctx ''eth0'' name_eth0 = None
         \<or> ly_path_xml2json ctx ''eth0'' name_eth0 = Some ''eth0''"
  shows "op_filter_build_xpath_from_subtree ctx [eth0_filter] [] [] = (0, [eth0_xpath], [])"
proof -
  have "filter_xpath_buf_get_content ctx (Elem ''name'' (Some if_ns) [] (Some ''eth0'') [])
          = ''eth0''"
    using content_eth0 [OF assms(4)] by (simp add: name_eth0_def)
  then show ?thesis
    using assms(1-3) if_ns_not_base
    by (simp add: eth0_filter_def name_eth0_def eth0_xpath_def filter_xpath_buf_add_node_def
          filter_xpath_buf_add_content_def elem_module_def qname_def content_match_node_def
          op_filter_xpath_add_filter_def isspace_def squote_def dquote_def Let_def)
qed

lemma create_eth0_ctx_if:
  "op_filter_create ctx_if (subtree_node (LYD_ANYDATA_XML [eth0_filter])) [] [] =
     (0, [eth0_xpath])"
  using build_eth0 [of ctx_if m_if]
  by (simp add: ctx_if_def m_if_def op_filter_create_def subtree_node_def type_subtree_def
        subtree_payload_def eth0_filter_def)

text \<open>
  Claim C6. Let the lookup resolve the namespace of the filter to a module named
  \<open>ietf-interfaces\<close> (whose namespace is the one looked up), and let
  \<^verbatim>\<open>ly_path_xml2json\<close> leave the prefix-free text \<open>eth0\<close> alone (it fails, or returns it).
  Then the filter of the example compiles, from an empty filter list and on a heap that does
  not fail, to the one string \<open>/ietf-interfaces:interfaces/interface[name='eth0']\<close>.
\<close>

theorem C6_interfaces_example:
  assumes "ly_ctx_get_module_by_ns ctx if_ns = Some module"
    and "mod_name module = ''ietf-interfaces''"
    and "mod_ns module = if_ns"
    and "ly_path_xml2json ctx ''eth0'' name_eth0 = None
         \<or> ly_path_xml2json ctx ''eth0'' name_eth0 = Some ''eth0''"
  shows "op_filter_build_xpath_from_subtree ctx [eth0_filter] [] [] =
           (0, [''/ietf-interfaces:interfaces/interface[name='' @ [squote] @ ''eth0''
                 @ [squote] @ '']''], [])
       \<and> op_filter_create ctx (subtree_node (LYD_ANYDATA_XML [eth0_filter])) [] [] =
           (0, [''/ietf-interfaces:interfaces/interface[name='' @ [squote] @ ''eth0''
                 @ [squote] @ '']''])"
  using build_eth0 [OF assms]
  by (simp add: op_filter_create_def subtree_node_def type_subtree_def subtree_payload_def
        eth0_filter_def eth0_xpath_def)

theorem C6_interfaces_example_witness:
  "op_filter_create ctx_if (subtree_node (LYD_ANYDATA_XML [eth0_filter])) [] [] =
     (0, [''/ietf-interfaces:interfaces/interface[name='' @ [squote] @ ''eth0''
           @ [squote] @ '']''])"
  using C6_interfaces_example [of ctx_if m_if]
  by (simp add: ctx_if_def m_if_def)









text \<open>
  Claim C1, as the source has it. Let the step of a containment element resolve, and
  let \<open>ps\<close> be the predicates of its content-match children, one for each of them in
  document order, on a heap that does not fail. The step is \<open>/\<close>, the qualified name and
  the attribute predicates of the element; the predicate of a child is \<open>[\<close>, its qualified
  name, its attribute predicates, \<open>=\<close> and its content between quotes, \<open>]\<close>. The shared
  prefix is the buffer so far, the step, and all of \<open>ps\<close>. Every string the walker adds
  starts with this prefix.
  \<^item> If every child is a content-match node, the walker adds one string: the prefix.
  \<^item> Otherwise the second loop visits every child again, content-match children included
    (\<^verbatim>\<open>/* child selection node or content match node */\<close>): in document order, a child
    without children adds the prefix followed by its own location step (nothing when its
    namespace does not resolve), and a child with children adds the strings of its own
    walk from the prefix. When all children are leaves that resolve, the list gains one
    string for every child, which is the number of children that are not content-match
    nodes plus the number of those that are.
\<close>

theorem C1_containment_branches:
  assumes "node_step ctx elem emn last_ns = Some step"
    and "map (\<lambda>c. content_pred ctx c emn last_ns) (filter content_match_node (elem_child elem))
           = map Some ps"
  shows "length ps = length (filter content_match_node (elem_child elem))
       \<and> (\<exists>m. elem_module ctx elem emn last_ns = Some m
              \<and> step = ''/'' @ qname m (elem_name elem) @ attrs_text ctx (elem_attr elem))
       \<and> (\<forall>i < length ps. \<exists>m.
              elem_module ctx (filter content_match_node (elem_child elem) ! i) emn last_ns = Some m
              \<and> ps ! i =
                  ''['' @ qname m (elem_name (filter content_match_node (elem_child elem) ! i))
                  @ attrs_text ctx (elem_attr (filter content_match_node (elem_child elem) ! i))
                  @ ''=''
                  @ [quot_of (filter_xpath_buf_get_content ctx
                               (filter content_match_node (elem_child elem) ! i))]
                  @ filter_xpath_buf_get_content ctx
                      (filter content_match_node (elem_child elem) ! i)
                  @ [quot_of (filter_xpath_buf_get_content ctx
                               (filter content_match_node (elem_child elem) ! i))]
                  @ '']'')
       \<and> filter_xpath_buf_add ctx elem emn last_ns buf fs [] =
           (0, fs @ walk ctx elem emn last_ns buf, [])
       \<and> (\<forall>s \<in> set (walk ctx elem emn last_ns buf). prefix (buf @ step @ concat ps) s)
       \<and> (list_all content_match_node (elem_child elem) \<longrightarrow>
            walk ctx elem emn last_ns buf = [buf @ step @ concat ps])
       \<and> (\<not> list_all content_match_node (elem_child elem) \<longrightarrow>
            walk ctx elem emn last_ns buf =
              concat (map (\<lambda>c. if elem_child c \<noteq> []
                                then walk ctx c None last_ns (buf @ step @ concat ps)
                                else (case node_step ctx c None last_ns of
                                        None \<Rightarrow> []
                                      | Some st \<Rightarrow> [(buf @ step @ concat ps) @ st]))
                          (elem_child elem))
          \<and> ((\<forall>c \<in> set (elem_child elem).
                  elem_child c = [] \<and> node_step ctx c None last_ns \<noteq> None) \<longrightarrow>
               length (walk ctx elem emn last_ns buf) = length (elem_child elem)))"
proof -
  let ?cm = "filter content_match_node (elem_child elem)"
  let ?P = "buf @ step @ concat ps"
  have cp: "content_preds ctx (elem_child elem) emn last_ns = Some (concat ps)"
    by (rule content_preds_map [OF assms(2)])
  have 0: "length ps = length ?cm"
    using arg_cong [OF assms(2), of length] by simp
  have a: "\<exists>m. elem_module ctx elem emn last_ns = Some m
              \<and> step = ''/'' @ qname m (elem_name elem) @ attrs_text ctx (elem_attr elem)"
    using assms(1) by (auto simp: node_step_eq split: option.splits)
  have b: "\<exists>m. elem_module ctx (?cm ! i) emn last_ns = Some m
              \<and> ps ! i = ''['' @ qname m (elem_name (?cm ! i)) @ attrs_text ctx (elem_attr (?cm ! i))
                  @ ''='' @ [quot_of (filter_xpath_buf_get_content ctx (?cm ! i))]
                  @ filter_xpath_buf_get_content ctx (?cm ! i)
                  @ [quot_of (filter_xpath_buf_get_content ctx (?cm ! i))] @ '']''"
    if i: "i < length ps" for i
  proof -
    have "map (\<lambda>c. content_pred ctx c emn last_ns) ?cm ! i = map Some ps ! i"
      using assms(2) by simp
    then have "content_pred ctx (?cm ! i) emn last_ns = Some (ps ! i)"
      using i 0 by simp
    then show ?thesis
      by (auto simp: content_pred_eq quot_of_def split: option.splits)
  qed
  have 1: "filter_xpath_buf_add ctx elem emn last_ns buf fs [] =
           (0, fs @ walk ctx elem emn last_ns buf, [])"
    by (rule filter_xpath_buf_add_nofail)
  have 2: "\<forall>s \<in> set (walk ctx elem emn last_ns buf). prefix ?P s"
    using walk_prefix_step [OF _ assms(1) cp] by blast
  have 3: "list_all content_match_node (elem_child elem) \<longrightarrow>
            walk ctx elem emn last_ns buf = [?P]"
    using assms(1) cp by (simp add: walk_eq)
  let ?f = "\<lambda>c. if elem_child c \<noteq> []
                                then walk ctx c None last_ns ?P
                                else (case node_step ctx c None last_ns of
                                        None \<Rightarrow> []
                                      | Some st \<Rightarrow> [?P @ st])"
  have 4: "walk ctx elem emn last_ns buf = concat (map ?f (elem_child elem))"
    if "\<not> list_all content_match_node (elem_child elem)"
    using assms(1) cp that by (simp add: walk_eq branches_concat)
  have len: "length (concat (map ?f cs)) = length cs"
    if "\<forall>c \<in> set cs. elem_child c = [] \<and> node_step ctx c None last_ns \<noteq> None" for cs
    using that by (induction cs) auto
  have 5: "length (walk ctx elem emn last_ns buf) = length (elem_child elem)"
    if "\<not> list_all content_match_node (elem_child elem)"
      and "\<forall>c \<in> set (elem_child elem). elem_child c = [] \<and> node_step ctx c None last_ns \<noteq> None"
    using 4 [OF that(1)] len [OF that(2)] by simp
  show ?thesis using 0 a b 1 2 3 4 5 by blast
qed

lemma walk_bce:
  "walk ctx_a bce_filter (Some ''m'') ''urn:a'' [] =
     [''/m:a[m:b='' @ [squote] @ ''x'' @ [squote] @ ''][m:e='' @ [squote] @ ''y'' @ [squote] @ '']/b'',
      ''/m:a[m:b='' @ [squote] @ ''x'' @ [squote] @ ''][m:e='' @ [squote] @ ''y'' @ [squote] @ '']/c'',
      ''/m:a[m:b='' @ [squote] @ ''x'' @ [squote] @ ''][m:e='' @ [squote] @ ''y'' @ [squote] @ '']/e'']"
  by (simp add: walk_def bce_filter_def ctx_a_def m_a_def compile_simps)

theorem C1_containment_branches_witness:
  "filter_xpath_buf_add ctx_a bce_filter (Some ''m'') ''urn:a'' [] [] [] =
     (0, [''/m:a[m:b='' @ [squote] @ ''x'' @ [squote] @ ''][m:e='' @ [squote] @ ''y'' @ [squote] @ '']/b'',
          ''/m:a[m:b='' @ [squote] @ ''x'' @ [squote] @ ''][m:e='' @ [squote] @ ''y'' @ [squote] @ '']/c'',
          ''/m:a[m:b='' @ [squote] @ ''x'' @ [squote] @ ''][m:e='' @ [squote] @ ''y'' @ [squote] @ '']/e''], [])"
proof -
  have a: "node_step ctx_a bce_filter (Some ''m'') ''urn:a'' = Some ''/m:a''"
    by (simp add: node_step_def bce_filter_def ctx_a_def m_a_def compile_simps)
  have b: "map (\<lambda>c. content_pred ctx_a c (Some ''m'') ''urn:a'')
             (filter content_match_node (elem_child bce_filter)) =
           map Some [''[m:b='' @ [squote] @ ''x'' @ [squote] @ '']'',
                     ''[m:e='' @ [squote] @ ''y'' @ [squote] @ '']'']"
    by (simp add: content_pred_def bce_filter_def ctx_a_def m_a_def compile_simps)
  show ?thesis
    using C1_containment_branches [OF a b, of "[]" "[]"] walk_bce by simp
qed

text \<open>
  The claim as the specification states it fails on \<^verbatim>\<open><a><b>x</b><c/></a>\<close>: one child is
  not a content-match node, and the filter list gains two strings, the first of them for
  the content-match child \<open>b\<close>.
\<close>

theorem C1_exactly_k_counterexample:
  "length (filter (\<lambda>c. \<not> content_match_node c) (elem_child bc_filter)) = 1
   \<and> op_filter_build_xpath_from_subtree ctx_a [bc_filter] [] [] =
       (0, [''/m:a[m:b='' @ [squote] @ ''x'' @ [squote] @ '']/b'',
            ''/m:a[m:b='' @ [squote] @ ''x'' @ [squote] @ '']/c''], [])"
  by (simp add: bc_filter_def ctx_a_def m_a_def compile_simps)

text \<open>
  Claim C5, on the code. Below the top level the content \<open>O'Brien\<close> is wrapped in
  double quotes, by the \<^verbatim>\<open>strchr\<close> of \<^verbatim>\<open>filter_xpath_buf_add_content\<close>. At the top level
  \<^verbatim>\<open>filter_xpath_buf_add_top_content\<close> has no such test: its format is
  \<^verbatim>\<open>[text()='%s']\<close>, and the same content yields \<open>[text()='O'Brien']\<close>.
\<close>

theorem C5_top_level_single_quotes:
  "op_filter_build_xpath_from_subtree ctx_a [top_obrien] [] [] =
     (0, [''/m:a[text()='' @ [squote] @ ''O'' @ [squote] @ ''Brien'' @ [squote] @ '']''], [])
   \<and> op_filter_build_xpath_from_subtree ctx_a [nested_obrien] [] [] =
     (0, [''/m:a[m:b='' @ [dquote] @ ''O'' @ [squote] @ ''Brien'' @ [dquote] @ '']''], [])"
  by (simp add: top_obrien_def nested_obrien_def obrien_def ctx_a_def m_a_def compile_simps)

text \<open>
  Claim C2, on the code. For \<^verbatim>\<open><a><b><c/></b><d/></a>\<close> the fourth allocation is the
  \<^verbatim>\<open>realloc\<close> that grows the copy of the buffer for \<open>b\<close>, inside the recursive call.
  When it fails the recursive call returns \<open>-1\<close>, the caller drops that value and goes on
  with \<open>d\<close>: the request returns \<open>0\<close> with the filter for \<open>d\<close> alone. A failure of the
  second allocation, at the top of the walk, returns \<open>-1\<close> as the claim says.
\<close>

theorem C2_nested_failure_dropped:
  "op_filter_create ctx_a (subtree_node (LYD_ANYDATA_XML [bd_filter])) [] [] =
     (0, [''/m:a/b/c'', ''/m:a/d''])
   \<and> op_filter_create ctx_a (subtree_node (LYD_ANYDATA_XML [bd_filter])) []
       [True, True, True, False] = (0, [''/m:a/d''])
   \<and> op_filter_create ctx_a (subtree_node (LYD_ANYDATA_XML [bd_filter])) []
       [True, False] = (- 1, [])"
  by (simp add: bd_filter_def subtree_node_def type_subtree_def ctx_a_def m_a_def compile_simps)

end
